theory Spec2Isabelle
  imports Main "HOL-Library.Word"
begin

unbundle bit_operations_syntax

section \<open>Data model of package vpn\<close>

text \<open>
  The Go types of the package, as the source declares them. A \<open>uint32\<close> is a
  \<open>32 word\<close> and a byte an \<open>8 word\<close>, so that \<open>+\<close> wraps as it does in Go; Go's
  \<open>int\<close> (the results of \<open>Mask.Size\<close>) is an \<open>int\<close>, the values staying far below
  its range.
\<close>

type_synonym byte = "8 word"
type_synonym uint32 = "32 word"

text \<open>\<open>models.PeerT\<close>, read through its two accessors.\<close>

record PeerT =
  GetID :: string
  GetIntAlias :: uint32

text \<open>
  \<open>network.Network\<close>, the control-plane handle. Its package is outside the
  sources at hand, so the handle is the tuple of what its accessors answer.
\<close>

record Network =
  GetPeerID :: string
  GetPeerIntAlias :: uint32
  GetPeers :: "PeerT list"
  GetPeerByIntAlias :: "uint32 \<Rightarrow> PeerT option"

text \<open>\<open>net.IPNet\<close>: two byte slices.\<close>

record IPNet =
  IP :: "byte list"
  Mask :: "byte list"

text \<open>
  The errors of the package. \<open>ErrNotImplementedYet\<close> is the \<open>fmt.Errorf("Not
  implemented yet: we can only modify the last octet at the moment")\<close> of
  \<open>updateIPAddress\<close> (the specification's AddressSpaceExhausted); \<open>ErrLink\<close>,
  \<open>ErrRead\<close> and \<open>ErrSend\<close> carry the message of a failure reported by the link,
  by the TAP device and by the delivery to a peer, \<open>ErrDevice\<close> that of a
  failed creation of the device. \<open>errors.Wrap\<close> keeps the kind
  of the error it wraps and maps nil to nil: it is the identity here.
\<close>

datatype error =
    ErrWrongMask
  | ErrPeerNotFound uint32
  | ErrNotImplementedYet
  | ErrLink string
  | ErrRead string
  | ErrSend string
  | ErrDevice string

text \<open>
  \<open>tenus.Linker\<close>: what the operating system answers to each of the three
  calls the package makes (\<open>None\<close> is success). The hardware address is
  passed as its bytes; the source passes their textual form.
\<close>

record Linker =
  SetLinkMacAddress :: "byte list \<Rightarrow> string option"
  SetLinkIp :: "byte list \<Rightarrow> IPNet \<Rightarrow> string option"
  SetLinkUp :: "string option"

text \<open>
  Every call that leaves the package is recorded, in order, in the field
  \<open>trace\<close> of the state: calls on the link, lines written to the error logger and
  to the dump logger, the sleep of the pump, calls of \<open>SendToPeer\<close> (the delivery
  attempts), hook registration and the closing of the device.
\<close>

datatype event =
    EvSetLinkMacAddress "byte list"
  | EvSetLinkIp "byte list" IPNet
  | EvSetLinkUp
  | EvLogError error
  | EvSleep nat
  | EvSendToPeer string "byte list"
  | EvDump uint32 string "byte list" "byte list" "byte list" "byte list"
  | EvRemoveHooker
  | EvAddHooker
  | EvTapClose

text \<open>
  A channel of \<open>struct{}\<close>: nil, or made, with the number of signals handed
  over so far.
\<close>

datatype chan = NilChan | Chan nat

text \<open>
  \<open>type vpn struct\<close>. \<open>locker\<close> is True while the mutex is held; \<open>loggerDump\<close>
  is True when the option set a dump logger; the device and link handles are
  the oracle \<open>Linker\<close> passed to the operations and the trace.
\<close>

record vpn =
  network :: "Network option"
  oldPeerIntAlias :: uint32
  closeChan :: chan
  subnet :: IPNet
  locker :: bool
  loggerDump :: bool
  trace :: "event list"

text \<open>
  How a call ends: it returns, it blocks forever (a lock or a channel nobody
  serves), or it panics.
\<close>

datatype 'a res = Ret 'a | Block | Panic

definition emit :: "event \<Rightarrow> vpn \<Rightarrow> vpn" where
  "emit e v = v\<lparr>trace := trace v @ [e]\<rparr>"

section \<open>\<open>net.IPMask.Size\<close>\<close>

text \<open>
  The standard library's \<open>simpleMaskLength\<close> and \<open>Size\<close>: the number of
  leading ones and the number of bits, or \<open>(0, 0)\<close> when the mask is not ones
  followed by zeros. \<open>countOnes\<close> is the inner loop \<open>for v&0x80 != 0 { n++; v <<= 1 }\<close>,
  which ends within eight rounds.
\<close>

fun countOnes :: "nat \<Rightarrow> byte \<Rightarrow> int \<times> byte" where
  "countOnes 0 v = (0, v)"
| "countOnes (Suc k) v =
     (if v AND 0x80 \<noteq> 0
      then (case countOnes k (push_bit 1 v) of (n, v') \<Rightarrow> (n + 1, v'))
      else (0, v))"

fun simpleMaskLength :: "byte list \<Rightarrow> int option" where
  "simpleMaskLength [] = Some 0"
| "simpleMaskLength (v # rest) =
     (if v = 0xFF
      then (case simpleMaskLength rest of None \<Rightarrow> None | Some n \<Rightarrow> Some (8 + n))
      else (case countOnes 8 v of (n, v') \<Rightarrow>
              if v' \<noteq> 0 then None
              else if list_ex (\<lambda>b. b \<noteq> 0) rest then None
              else Some n))"

definition Size :: "byte list \<Rightarrow> int \<times> int" where
  "Size m = (case simpleMaskLength m of
               None \<Rightarrow> (0, 0)
             | Some ones \<Rightarrow> (ones, int (length m) * 8))"

section \<open>Self-address reconciliation\<close>

text \<open>
  \<open>updateMAC\<close>. \<open>GenerateHomenetMAC\<close> lives in a file of the package that is not
  at hand: it is the parameter \<open>gen\<close>.
\<close>

definition updateMAC :: "(uint32 \<Rightarrow> byte list) \<Rightarrow> Linker \<Rightarrow> uint32 \<Rightarrow> vpn \<Rightarrow> error option \<times> vpn" where
  "updateMAC gen lk peerIntAlias v =
     (let newMAC = gen peerIntAlias;
          v1 = emit (EvSetLinkMacAddress newMAC) v
      in case SetLinkMacAddress lk newMAC of
           Some msg \<Rightarrow> (Some (ErrLink msg), v1)
         | None \<Rightarrow> (None, v1))"

text \<open>
  \<open>hostLimit\<close> is \<open>1<<uint32(maskBits-maskOnes)\<close>, a \<open>uint32\<close> shift: it is 0
  once the shift count reaches 32.
\<close>

definition hostLimit :: "IPNet \<Rightarrow> uint32" where
  "hostLimit n = (case Size (Mask n) of (maskOnes, maskBits) \<Rightarrow>
     push_bit (unat (word_of_int (maskBits - maskOnes) :: uint32)) (1 :: uint32))"

text \<open>
  \<open>updateIPAddress\<close>. \<open>myAddress := vpn.subnet.IP\<close> copies the slice header
  only: \<open>myAddress\<close> and \<open>vpn.subnet.IP\<close> share their bytes, so the assignment to
  \<open>myAddress[len(myAddress)-1]\<close> is an assignment to the stored subnet.
  Indexing an empty address panics.
\<close>

definition updateIPAddress :: "Linker \<Rightarrow> uint32 \<Rightarrow> vpn \<Rightarrow> (error option \<times> vpn) res" where
  "updateIPAddress lk peerIntAlias v =
     (if peerIntAlias \<ge> hostLimit (subnet v) then Ret (Some ErrWrongMask, v)
      else
        let myAddress = IP (subnet v) in
        if myAddress = [] then Panic
        else
          let i = length myAddress - 1 in
          if (ucast (myAddress ! i) :: uint32) + peerIntAlias > 255
          then Ret (Some ErrNotImplementedYet, v)
          else
            let myAddress' = myAddress[i := myAddress ! i + (ucast peerIntAlias :: byte)];
                v1 = v\<lparr>subnet := (subnet v)\<lparr>IP := myAddress'\<rparr>\<rparr>;
                v2 = emit (EvSetLinkIp myAddress' (subnet v1)) v1
            in case SetLinkIp lk myAddress' (subnet v1) of
                 Some msg \<Rightarrow> Ret (Some (ErrLink msg), v2)
               | None \<Rightarrow> Ret (None, v2))"

definition updatePeerIntAlias :: "(uint32 \<Rightarrow> byte list) \<Rightarrow> Linker \<Rightarrow> uint32 \<Rightarrow> vpn \<Rightarrow> (error option \<times> vpn) res" where
  "updatePeerIntAlias gen lk newPeerIntAlias v =
     (case updateMAC gen lk newPeerIntAlias v of
        (Some e, v1) \<Rightarrow> Ret (Some e, v1)
      | (None, v1) \<Rightarrow>
          (case updateIPAddress lk newPeerIntAlias v1 of
             Block \<Rightarrow> Block
           | Panic \<Rightarrow> Panic
           | Ret (Some e, v2) \<Rightarrow> Ret (Some e, v2)
           | Ret (None, v2) \<Rightarrow>
               (let v3 = emit EvSetLinkUp v2
                in case SetLinkUp lk of
                     Some msg \<Rightarrow> Ret (Some (ErrLink msg), v3)
                   | None \<Rightarrow> Ret (None, v3\<lparr>oldPeerIntAlias := newPeerIntAlias\<rparr>))))"

text \<open>
  \<open>updatePeers\<close>. \<open>vpn.GetPeerIntAlias()\<close> is \<open>vpn.GetNetwork().GetPeerIntAlias()\<close>:
  a nil handle panics. The argument \<open>peers\<close> is not used by the source.
\<close>

definition updatePeers :: "(uint32 \<Rightarrow> byte list) \<Rightarrow> Linker \<Rightarrow> vpn \<Rightarrow> (error option \<times> vpn) res" where
  "updatePeers gen lk v =
     (case network v of
        None \<Rightarrow> Panic
      | Some h \<Rightarrow>
          (let peerIntAlias = GetPeerIntAlias h in
           if oldPeerIntAlias v \<noteq> peerIntAlias
           then updatePeerIntAlias gen lk peerIntAlias v
           else Ret (None, v)))"

section \<open>Construction, locking and teardown\<close>

text \<open>
  \<open>LockDo\<close>. \<open>sync.Mutex\<close> is not reentrant: \<open>Lock\<close> on a held mutex waits for
  an \<open>Unlock\<close>, which only the deferred call of the holder would issue.
\<close>

definition LockDo :: "(vpn \<Rightarrow> vpn res) \<Rightarrow> vpn \<Rightarrow> vpn res" where
  "LockDo fn v =
     (if locker v then Block
      else case fn (v\<lparr>locker := True\<rparr>) of
             Ret v' \<Rightarrow> Ret (v'\<lparr>locker := False\<rparr>)
           | Block \<Rightarrow> Block
           | Panic \<Rightarrow> Panic)"

text \<open>
  \<open>setNetwork\<close>. A nil \<open>newNetwork\<close> is stored as it is, and
  \<open>newNetwork.AddHooker\<close> is then called through the nil pointer: the method is
  outside the sources at hand and is taken to panic there.
\<close>

definition setNetwork :: "Network option \<Rightarrow> vpn \<Rightarrow> vpn res" where
  "setNetwork newNetwork v =
     LockDo (\<lambda>w.
       let w1 = (case network w of None \<Rightarrow> w | Some oldNetwork \<Rightarrow> emit EvRemoveHooker w);
           w2 = w1\<lparr>network := newNetwork\<rparr>
       in case newNetwork of
            None \<Rightarrow> Panic
          | Some n \<Rightarrow> Ret (emit EvAddHooker w2)) v"

text \<open>
  \<open>New\<close>. \<open>waterNew\<close> and \<open>newLinkFrom\<close> are the answers of \<open>water.New\<close> and
  \<open>tenus.NewLinkFrom\<close>; the error of the latter is overwritten by the next
  assignment, and a nil link panics on \<open>SetLinkUp\<close>. \<open>optDump\<close> tells whether the
  options hold an \<open>optSetLoggerDump\<close>. The composite literal leaves
  \<open>oldPeerIntAlias\<close> and \<open>closeChan\<close> at their zero values: 0 and the nil
  channel. The goroutine started last is \<open>tapReadHandler\<close> below.
\<close>

definition New :: "string option \<Rightarrow> string option \<Rightarrow> Linker \<Rightarrow> IPNet \<Rightarrow> Network option \<Rightarrow> bool
    \<Rightarrow> (error option \<times> vpn) res" where
  "New waterNew newLinkFrom lk sn homenet optDump =
     (let r = \<lparr>network = None, oldPeerIntAlias = 0, closeChan = NilChan, subnet = sn,
                locker = False, loggerDump = optDump, trace = []\<rparr>
      in case waterNew of
           Some msg \<Rightarrow> Ret (Some (ErrDevice msg), r)
         | None \<Rightarrow>
             (case newLinkFrom of
                Some msg \<Rightarrow> Panic
              | None \<Rightarrow>
                  (let r1 = emit EvSetLinkUp r
                   in case SetLinkUp lk of
                        Some msg \<Rightarrow> Ret (Some (ErrLink msg), r1)
                      | None \<Rightarrow>
                          (case setNetwork homenet r1 of
                             Ret r2 \<Rightarrow> Ret (None, r2)
                           | Block \<Rightarrow> Block
                           | Panic \<Rightarrow> Panic))))"

text \<open>
  \<open>Close\<close>. A send on a nil channel blocks forever; on a made channel the
  signal is handed to the pump.
\<close>

definition Close :: "vpn \<Rightarrow> vpn res" where
  "Close v =
     LockDo (\<lambda>w.
       case setNetwork None w of
         Block \<Rightarrow> Block
       | Panic \<Rightarrow> Panic
       | Ret w1 \<Rightarrow>
           (let w2 = emit EvTapClose w1
            in case closeChan w2 of
                 NilChan \<Rightarrow> Block
               | Chan k \<Rightarrow> Ret (w2\<lparr>closeChan := Chan (Suc k)\<rparr>))) v"

section \<open>Frames\<close>

text \<open>
  \<open>ethernet.Frame\<close> is a byte slice. A Go slice is a window on an array:
  \<open>store\<close> holds the bytes from the start of the slice to its capacity and
  \<open>flen\<close> is its length. An index expression \<open>f[i]\<close> panics unless \<open>i < len(f)\<close>;
  a slice expression is checked against the capacity when it names its upper
  bound and against the length when it does not.
\<close>

record Frame =
  store :: "byte list"
  flen :: nat

definition frameBytes :: "Frame \<Rightarrow> byte list" where
  "frameBytes f = take (flen f) (store f)"

text \<open>\<open>framebuf[:n]\<close>\<close>

definition sliceTo :: "byte list \<Rightarrow> nat \<Rightarrow> Frame res" where
  "sliceTo buf n = (if n \<le> length buf then Ret \<lparr>store = buf, flen = n\<rparr> else Panic)"

text \<open>\<open>f[i]\<close>\<close>

definition frameIndex :: "Frame \<Rightarrow> nat \<Rightarrow> byte res" where
  "frameIndex f i = (if i < flen f then Ret (store f ! i) else Panic)"

text \<open>
  The accessors of package \<open>ethernet\<close> that the package calls:
  \<open>Destination\<close> is \<open>f[:6:6]\<close>, \<open>Source\<close> is \<open>f[6:12:12]\<close>, \<open>Tagging\<close> reads
  \<open>f[12]\<close> and \<open>f[13]\<close> (4 for 0x8100, 8 for 0x88a8, else 0), \<open>Ethertype\<close> is the
  two bytes at \<open>12 + Tagging\<close>, \<open>Payload\<close> is \<open>f[12+Tagging+2:]\<close>.
\<close>

definition Destination :: "Frame \<Rightarrow> byte list res" where
  "Destination f = (if 6 \<le> length (store f) then Ret (take 6 (store f)) else Panic)"

definition Source :: "Frame \<Rightarrow> byte list res" where
  "Source f = (if 12 \<le> length (store f) then Ret (take 6 (drop 6 (store f))) else Panic)"

definition Tagging :: "Frame \<Rightarrow> nat res" where
  "Tagging f =
     (case frameIndex f 12 of
        Panic \<Rightarrow> Panic
      | Block \<Rightarrow> Block
      | Ret b12 \<Rightarrow>
          if b12 = 0x81 then
            (case frameIndex f 13 of
               Panic \<Rightarrow> Panic
             | Block \<Rightarrow> Block
             | Ret b13 \<Rightarrow> if b13 = 0x00 then Ret 4 else Ret 0)
          else if b12 = 0x88 then
            (case frameIndex f 13 of
               Panic \<Rightarrow> Panic
             | Block \<Rightarrow> Block
             | Ret b13 \<Rightarrow> if b13 = 0xA8 then Ret 8 else Ret 0)
          else Ret 0)"

definition Ethertype :: "Frame \<Rightarrow> byte list res" where
  "Ethertype f =
     (case Tagging f of
        Panic \<Rightarrow> Panic
      | Block \<Rightarrow> Block
      | Ret t \<Rightarrow>
          (case frameIndex f (12 + t) of
             Panic \<Rightarrow> Panic
           | Block \<Rightarrow> Block
           | Ret hi \<Rightarrow>
               (case frameIndex f (12 + t + 1) of
                  Panic \<Rightarrow> Panic
                | Block \<Rightarrow> Block
                | Ret lo \<Rightarrow> Ret [hi, lo])))"

definition Payload :: "Frame \<Rightarrow> byte list res" where
  "Payload f =
     (case Tagging f of
        Panic \<Rightarrow> Panic
      | Block \<Rightarrow> Block
      | Ret t \<Rightarrow>
          if 12 + t + 2 \<le> flen f then Ret (drop (12 + t + 2) (frameBytes f)) else Panic)"

section \<open>The frame pump and the router\<close>

text \<open>
  The methods of \<open>macSlice\<close> are in a file of the package that is not at
  hand: they are parameters of the pump.
\<close>

record macOps =
  IsHomenet :: "byte list \<Rightarrow> bool"
  IsBroadcast :: "byte list \<Rightarrow> bool"
  macGetPeerIntAlias :: "byte list \<Rightarrow> uint32"

text \<open>
  Modelled from the spec: \<open>logIfError\<close>, a helper of the package that is not in
  the sources at hand. Per-frame and per-delivery errors are logged (section 7
  of the specification): an error goes to the error logger, nil does nothing.
\<close>

definition logIfError :: "error option \<Rightarrow> vpn \<Rightarrow> vpn" where
  "logIfError err v = (case err of None \<Rightarrow> v | Some e \<Rightarrow> emit (EvLogError e) v)"

text \<open>
  \<open>SendToPeer\<close>. The call itself is recorded as \<open>EvSendToPeer\<close>. With a dump
  logger the arguments of \<open>Printf\<close> are evaluated in order, and a panic of
  an accessor is a panic of the call. The result is nil.
\<close>

definition SendToPeer :: "vpn \<Rightarrow> PeerT \<Rightarrow> Frame \<Rightarrow> (error option \<times> vpn) res" where
  "SendToPeer v peer frame =
     (let v1 = emit (EvSendToPeer (GetID peer) (frameBytes frame)) v in
      if \<not> loggerDump v1 then Ret (None, v1)
      else
        case Destination frame of
          Panic \<Rightarrow> Panic
        | Block \<Rightarrow> Block
        | Ret dst \<Rightarrow>
            (case Source frame of
               Panic \<Rightarrow> Panic
             | Block \<Rightarrow> Block
             | Ret src \<Rightarrow>
                 (case Ethertype frame of
                    Panic \<Rightarrow> Panic
                  | Block \<Rightarrow> Block
                  | Ret et \<Rightarrow>
                      (case Payload frame of
                         Panic \<Rightarrow> Panic
                       | Block \<Rightarrow> Block
                       | Ret pl \<Rightarrow>
                           Ret (None, emit (EvDump (GetIntAlias peer) (GetID peer) dst src et pl) v1)))))"

text \<open>
  The delivery the router calls is a parameter \<open>send\<close> of the pump: the
  source's own is \<open>SendToPeer\<close>. \<open>sendVia tp\<close> is \<open>SendToPeer\<close> with the answer of
  a transport \<open>tp\<close> in place of the constant nil, so that a delivery that fails
  can be spoken of.
\<close>

type_synonym sender = "vpn \<Rightarrow> PeerT \<Rightarrow> Frame \<Rightarrow> (error option \<times> vpn) res"

definition sendVia :: "(PeerT \<Rightarrow> byte list \<Rightarrow> string option) \<Rightarrow> sender" where
  "sendVia tp v peer frame =
     (case SendToPeer v peer frame of
        Panic \<Rightarrow> Panic
      | Block \<Rightarrow> Block
      | Ret (e, v1) \<Rightarrow> Ret (map_option ErrSend (tp peer (frameBytes frame)), v1))"

definition SendToPeerByIntAlias :: "sender \<Rightarrow> vpn \<Rightarrow> uint32 \<Rightarrow> Frame \<Rightarrow> (error option \<times> vpn) res" where
  "SendToPeerByIntAlias send v peerIntAlias frame =
     (case network v of
        None \<Rightarrow> Panic
      | Some homenet \<Rightarrow>
          (case GetPeerByIntAlias homenet peerIntAlias of
             None \<Rightarrow> Ret (Some (ErrPeerNotFound peerIntAlias), v)
           | Some peer \<Rightarrow> send v peer frame))"

text \<open>
  \<open>ForeachPeer\<close>: the handle, the own ID and the peers are read once, before
  the loop.
\<close>

fun foreachPeerLoop :: "string \<Rightarrow> (PeerT \<Rightarrow> vpn \<Rightarrow> (bool \<times> vpn) res) \<Rightarrow> PeerT list \<Rightarrow> vpn \<Rightarrow> vpn res" where
  "foreachPeerLoop myPeerID fn [] v = Ret v"
| "foreachPeerLoop myPeerID fn (peer # peers) v =
     (if GetID peer = myPeerID then foreachPeerLoop myPeerID fn peers v
      else case fn peer v of
             Panic \<Rightarrow> Panic
           | Block \<Rightarrow> Block
           | Ret (goOn, v1) \<Rightarrow>
               if \<not> goOn then Ret v1 else foreachPeerLoop myPeerID fn peers v1)"

definition ForeachPeer :: "(PeerT \<Rightarrow> vpn \<Rightarrow> (bool \<times> vpn) res) \<Rightarrow> vpn \<Rightarrow> vpn res" where
  "ForeachPeer fn v =
     (case network v of
        None \<Rightarrow> Panic
      | Some homenet \<Rightarrow> foreachPeerLoop (GetPeerID homenet) fn (GetPeers homenet) v)"

text \<open>
  One round of the loop of \<open>tapReadHandler\<close> after the \<open>select\<close> has taken a
  message \<open>(n, err)\<close> from \<open>readChan\<close>; \<open>framebuf\<close> is the buffer as the read
  left it. \<open>Ret\<close> is \<open>continue\<close>.
\<close>

definition tapReadRound :: "macOps \<Rightarrow> sender \<Rightarrow> byte list \<Rightarrow> nat \<Rightarrow> string option \<Rightarrow> vpn \<Rightarrow> vpn res" where
  "tapReadRound ops send framebuf n err v =
     (let v1 = (case err of
                  None \<Rightarrow> v
                | Some msg \<Rightarrow> emit (EvSleep 1) (emit (EvLogError (ErrRead msg)) v))
      in case sliceTo framebuf n of
           Panic \<Rightarrow> Panic
         | Block \<Rightarrow> Block
         | Ret frame \<Rightarrow>
             (case Destination frame of
                Panic \<Rightarrow> Panic
              | Block \<Rightarrow> Block
              | Ret dstMAC \<Rightarrow>
                  (let isHomenetDST = IsHomenet ops dstMAC;
                       isBroadcastDST = (if \<not> isHomenetDST then IsBroadcast ops dstMAC else False)
                   in if \<not> isHomenetDST \<and> \<not> isBroadcastDST then Ret v1
                      else if isHomenetDST then
                        (case SendToPeerByIntAlias send v1 (macGetPeerIntAlias ops dstMAC) frame of
                           Panic \<Rightarrow> Panic
                         | Block \<Rightarrow> Block
                         | Ret (e, v2) \<Rightarrow> Ret (logIfError e v2))
                      else if isBroadcastDST then
                        ForeachPeer (\<lambda>peer w.
                          case send w peer frame of
                            Panic \<Rightarrow> Panic
                          | Block \<Rightarrow> Block
                          | Ret (e, w1) \<Rightarrow> Ret (True, logIfError e w1)) v1
                      else Panic)))"

text \<open>
  The pump and the goroutine that reads the device share \<open>framebuf\<close>, and
  \<open>readChan\<close> is unbuffered: once the pump has taken the result of a read, the
  reader starts the next read, which may write to the buffer before the pump,
  asleep or still dispatching, looks at it. What happens to the pump is a list
  of messages:
  \<^item> \<open>CloseSignal\<close>: the \<open>select\<close> receives from \<open>closeChan\<close>;
  \<^item> \<open>Filled bytes\<close>: a read of the device returns, having written \<open>bytes\<close> at
    the start of the buffer; its result waits on \<open>readChan\<close>;
  \<^item> \<open>Taken n err\<close>: the \<open>select\<close> receives the result \<open>(n, err)\<close> of a read,
    and the round runs on the buffer as it stands;
  \<^item> \<open>ReadMsg bytes err\<close>: the two in one, a read that writes \<open>bytes\<close> and
    returns their number and \<open>err\<close>, taken and handled before the next read
    writes.

  A run in which the next read has written before the round looks at the
  buffer is \<open>[Filled b1, Filled b2, Taken n1 err1, Taken n2 err2]\<close>. A write
  that lands in the middle of a round is not modelled: a round sees one state
  of the buffer.
\<close>

datatype chanMsg =
    CloseSignal
  | ReadMsg "byte list" "string option"
  | Filled "byte list"
  | Taken nat "string option"

definition readInto :: "byte list \<Rightarrow> byte list \<Rightarrow> byte list \<times> nat" where
  "readInto framebuf bytes =
     (let d = take (length framebuf) bytes in (d @ drop (length d) framebuf, length d))"

text \<open>
  How the pump stands after a list of messages: it has returned, it waits in
  the \<open>select\<close> for the next message, it has panicked, or it is stuck.
\<close>

datatype pumpEnd = Returned | Waiting | Panicked | Stuck

text \<open>
  The loop \<open>for vpn.GetNetwork() != nil\<close>. A nil \<open>closeChan\<close> delivers nothing,
  so a signal listed while the channel is nil is not received.
\<close>

fun tapReadLoop :: "macOps \<Rightarrow> sender \<Rightarrow> byte list \<Rightarrow> chanMsg list \<Rightarrow> vpn \<Rightarrow> pumpEnd \<times> vpn" where
  "tapReadLoop ops send framebuf [] v =
     (if network v = None then (Returned, v) else (Waiting, v))"
| "tapReadLoop ops send framebuf (m # ms) v =
     (if network v = None then (Returned, v)
      else case m of
             CloseSignal \<Rightarrow>
               (if closeChan v = NilChan then tapReadLoop ops send framebuf ms v
                else (Returned, v))
           | ReadMsg bytes err \<Rightarrow>
               (case readInto framebuf bytes of
                  (framebuf', n) \<Rightarrow>
                    (case tapReadRound ops send framebuf' n err v of
                       Panic \<Rightarrow> (Panicked, v)
                     | Block \<Rightarrow> (Stuck, v)
                     | Ret v1 \<Rightarrow> tapReadLoop ops send framebuf' ms v1))
           | Filled bytes \<Rightarrow>
               tapReadLoop ops send (fst (readInto framebuf bytes)) ms v
           | Taken n err \<Rightarrow>
               (case tapReadRound ops send framebuf n err v of
                  Panic \<Rightarrow> (Panicked, v)
                | Block \<Rightarrow> (Stuck, v)
                | Ret v1 \<Rightarrow> tapReadLoop ops send framebuf ms v1))"

text \<open>
  \<open>tapReadHandler\<close>: \<open>framebuf.Resize(TAPFrameMaxSize)\<close> makes a zeroed buffer
  of 6 + 6 + 2 + 1500 bytes.
\<close>

definition TAPFrameMaxSize :: nat where
  "TAPFrameMaxSize = 1500"

definition tapReadHandler :: "macOps \<Rightarrow> chanMsg list \<Rightarrow> vpn \<Rightarrow> pumpEnd \<times> vpn" where
  "tapReadHandler ops ms v =
     tapReadLoop ops SendToPeer (replicate (6 + 6 + 2 + TAPFrameMaxSize) 0) ms v"

section \<open>The addressing scheme\<close>

text \<open>
  Modelled from the spec: \<open>GenerateHomenetMAC\<close> and the methods \<open>IsHomenet\<close>,
  \<open>IsBroadcast\<close> and \<open>GetPeerIntAlias\<close> of \<open>macSlice\<close>, which are in a file of
  the package that is not in the sources at hand. Section 3 of the
  specification describes the synthetic address as a 6-byte link address
  carrying a fixed tag that marks it as a homenet address plus the encoded
  alias, and section 4.1 names the four functions. The alias is a \<open>uint32\<close>, so
  the tag has the two bytes that remain; its value is not given and is the
  parameter \<open>tag\<close>. The alias is laid out most significant byte first.
\<close>

definition aliasToAddress :: "byte list \<Rightarrow> uint32 \<Rightarrow> byte list" where
  "aliasToAddress tag a =
     tag @ [ucast (drop_bit 24 a), ucast (drop_bit 16 a), ucast (drop_bit 8 a), ucast a]"

definition isHomenet :: "byte list \<Rightarrow> byte list \<Rightarrow> bool" where
  "isHomenet tag address = (length address = 6 \<and> take 2 address = tag)"

definition isBroadcast :: "byte list \<Rightarrow> bool" where
  "isBroadcast address = (address = [0xFF, 0xFF, 0xFF, 0xFF, 0xFF, 0xFF])"

definition addressToAlias :: "byte list \<Rightarrow> uint32" where
  "addressToAlias address =
     (case drop 2 address of
        [b3, b2, b1, b0] \<Rightarrow>
          push_bit 24 (ucast b3) OR push_bit 16 (ucast b2) OR push_bit 8 (ucast b1) OR ucast b0
      | _ \<Rightarrow> 0)"

definition homenetOps :: "byte list \<Rightarrow> macOps" where
  "homenetOps tag =
     \<lparr>IsHomenet = isHomenet tag, IsBroadcast = isBroadcast, macGetPeerIntAlias = addressToAlias\<rparr>"

section \<open>A small network, for the concrete runs\<close>

text \<open>
  The subnet 10.0.0.0/24, a link that accepts every call, a directory of
  three peers of which the first is this one, and the fabric as \<open>New\<close> returns
  it.
\<close>

definition exSubnet :: IPNet where
  "exSubnet = \<lparr>IP = [10, 0, 0, 0], Mask = [255, 255, 255, 0]\<rparr>"

definition exLinker :: Linker where
  "exLinker = \<lparr>SetLinkMacAddress = (\<lambda>m. None), SetLinkIp = (\<lambda>a n. None), SetLinkUp = None\<rparr>"

definition exTag :: "byte list" where
  "exTag = [0x02, 0x00]"

definition exPeers :: "PeerT list" where
  "exPeers = [\<lparr>GetID = ''me'', GetIntAlias = 5\<rparr>,
              \<lparr>GetID = ''alice'', GetIntAlias = 6\<rparr>,
              \<lparr>GetID = ''bob'', GetIntAlias = 7\<rparr>]"

definition exHomenet :: "uint32 \<Rightarrow> Network" where
  "exHomenet self =
     \<lparr>GetPeerID = ''me'', GetPeerIntAlias = self, GetPeers = exPeers,
      GetPeerByIntAlias = (\<lambda>a. find (\<lambda>p. GetIntAlias p = a) exPeers)\<rparr>"

definition exVpn :: "uint32 \<Rightarrow> bool \<Rightarrow> vpn" where
  "exVpn self dump =
     \<lparr>network = Some (exHomenet self), oldPeerIntAlias = 0, closeChan = NilChan,
      subnet = exSubnet, locker = False, loggerDump = dump,
      trace = [EvSetLinkUp, EvAddHooker]\<rparr>"

text \<open>The state a call of \<open>updateIPAddress\<close> that passes both checks leaves.\<close>

definition subnetAdvanced :: "uint32 \<Rightarrow> vpn \<Rightarrow> vpn" where
  "subnetAdvanced a v =
     v\<lparr>subnet := (subnet v)\<lparr>IP := butlast (IP (subnet v)) @ [last (IP (subnet v)) + ucast a]\<rparr>\<rparr>"




text \<open>The peers a call of \<open>SendToPeer\<close> was made for, in the order of the calls.\<close>

fun attempts :: "event list \<Rightarrow> string list" where
  "attempts [] = []"
| "attempts (EvSendToPeer peerID bytes # es) = peerID # attempts es"
| "attempts (e # es) = attempts es"

text \<open>The errors written to the error logger, in order.\<close>

fun logged :: "event list \<Rightarrow> error list" where
  "logged [] = []"
| "logged (EvLogError e # es) = e # logged es"
| "logged (e # es) = logged es"

text \<open>
  A frame whose header is complete: each accessor the dump line evaluates
  returns.
\<close>

definition returns :: "'a res \<Rightarrow> bool" where
  "returns r = (case r of Ret x \<Rightarrow> True | Block \<Rightarrow> False | Panic \<Rightarrow> False)"

definition headerComplete :: "Frame \<Rightarrow> bool" where
  "headerComplete f =
     (returns (Destination f) \<and> returns (Source f) \<and> returns (Ethertype f) \<and> returns (Payload f))"

text \<open>The peers of a handle other than the own one: whom a broadcast goes to.\<close>

definition otherPeers :: "Network \<Rightarrow> PeerT list" where
  "otherPeers h = filter (\<lambda>p. GetID p \<noteq> GetPeerID h) (GetPeers h)"

text \<open>A broadcast frame of 14 bytes: destination, source and ethertype 0x0800.\<close>

definition exBroadcastFrame :: "byte list" where
  "exBroadcastFrame = [0xFF, 0xFF, 0xFF, 0xFF, 0xFF, 0xFF, 2, 0, 0, 0, 0, 5, 8, 0]"

text \<open>The same frame cut after 13 bytes: its ethertype is incomplete.\<close>

definition exRuntFrame :: "byte list" where
  "exRuntFrame = [0xFF, 0xFF, 0xFF, 0xFF, 0xFF, 0xFF, 2, 0, 0, 0, 0, 5, 8]"

section \<open>Arithmetic of the range checks\<close>

lemma unat_push_bit_1:
  assumes "k < 32"
  shows "unat (push_bit k (1::uint32)) = 2 ^ k"
proof -
  have lt: "(2::nat) ^ k < 2 ^ 32" using assms by (intro power_strict_increasing) auto
  have "push_bit k (1::uint32) = of_nat (2 ^ k)" by simp
  then have "unat (push_bit k (1::uint32)) = (2 ^ k) mod 2 ^ 32"
    by (simp only: unat_of_nat) simp
  then show ?thesis using lt by simp
qed

text \<open>
  An alias below the limit of the mask check is below \<open>2 ^ 31\<close>: a shift count
  of 32 or more makes the limit 0, and nothing is below 0.
\<close>

lemma hostLimit_bound:
  assumes "a < hostLimit n"
  shows "unat a < 2 ^ 31"
proof -
  obtain k where k: "hostLimit n = push_bit k (1::uint32)"
    by (cases "Size (Mask n)") (simp add: hostLimit_def)
  show ?thesis
  proof (cases "k < 32")
    case True
    then have "k \<le> 31" by simp
    have "unat (push_bit k (1::uint32)) = 2 ^ k"
      using True by (rule unat_push_bit_1)
    moreover have "unat a < unat (hostLimit n)" using assms by (simp add: word_less_nat_alt)
    moreover have "(2::nat) ^ k \<le> 2 ^ 31" using \<open>k \<le> 31\<close> by (intro power_increasing) auto
    ultimately show ?thesis using k by simp
  next
    case False
    then have "hostLimit n = 0" unfolding k by simp
    with assms show ?thesis by simp
  qed
qed

lemma hostLimit_IP_update: "hostLimit (n\<lparr>IP := x\<rparr>) = hostLimit n"
  by (simp add: hostLimit_def)

text \<open>So the \<open>uint32\<close> sum of the second check does not wrap.\<close>

lemma octet_plus_alias_uint32:
  assumes "unat a < 2 ^ 31"
  shows "unat ((ucast (b::byte) :: uint32) + a) = unat b + unat a"
proof -
  have "unat b < 2 ^ 8" using unsigned_less[of b] by simp
  then have "unat b + unat a < 2 ^ 32" using assms by simp
  then show ?thesis by (simp add: unat_word_ariths unsigned_ucast_eq take_bit_eq_mod)
qed

lemma exceeds_iff:
  assumes "a < hostLimit n"
  shows "(ucast (b::byte) :: uint32) + a > 255 \<longleftrightarrow> 255 < unat b + unat a"
proof -
  have "unat ((ucast b :: uint32) + a) = unat b + unat a"
    using hostLimit_bound[OF assms] by (rule octet_plus_alias_uint32)
  then show ?thesis by (simp add: word_less_nat_alt)
qed

text \<open>Nor does the byte addition \<open>+= uint8(peerIntAlias)\<close> once the check has passed.\<close>

lemma octet_plus_alias_byte:
  assumes "unat b + unat (a::uint32) \<le> 255"
  shows "unat ((b::byte) + ucast a) = unat b + unat a"
  using assms by (simp add: unat_word_ariths unsigned_ucast_eq take_bit_eq_mod)

lemma last_update:
  assumes "xs \<noteq> []"
  shows "xs[length xs - Suc 0 := x] = butlast xs @ [x]"
    and "xs ! (length xs - Suc 0) = last xs"
  using assms by (induction xs rule: rev_induct) (simp_all add: nth_append)

lemma updateIPAddress_checked:
  assumes "IP (subnet v) \<noteq> []" and "a < hostLimit (subnet v)"
  shows "updateIPAddress lk a v =
     (if 255 < unat (last (IP (subnet v))) + unat a then Ret (Some ErrNotImplementedYet, v)
      else Ret (map_option ErrLink
                  (SetLinkIp lk (IP (subnet (subnetAdvanced a v))) (subnet (subnetAdvanced a v))),
                emit (EvSetLinkIp (IP (subnet (subnetAdvanced a v))) (subnet (subnetAdvanced a v)))
                  (subnetAdvanced a v)))"
  using assms exceeds_iff[OF assms(2), of "last (IP (subnet v))"]
  by (simp add: updateIPAddress_def Let_def last_update not_le subnetAdvanced_def
      split: option.split)

lemma countOnes_zero: "countOnes 8 0 = (0, 0)"
  by code_simp

lemma hostLimit_slash24: "hostLimit \<lparr>IP = ip, Mask = [255, 255, 255, 0]\<rparr> = 256"
  by (simp add: hostLimit_def Size_def countOnes_zero)

lemma New_example:
  "New None None exLinker exSubnet (Some (exHomenet self)) dump = Ret (None, exVpn self dump)"
  by (simp add: New_def exLinker_def setNetwork_def LockDo_def emit_def exVpn_def)

section \<open>The IP address of the peer\<close>

text \<open>
  C1, as stated: \<open>updateIPAddress\<close> fails with the not-implemented error
  (AddressSpaceExhausted) if and only if the last octet of the subnet base plus
  the alias exceeds 255. It does not: on 10.0.0.0/24 the alias 300 gives a sum
  above 255, and the call fails with \<open>ErrWrongMask\<close>, the check that comes first.
\<close>

theorem updateIPAddress_wrong_mask_counterexample:
  "updateIPAddress exLinker 300 (exVpn 5 False) = Ret (Some ErrWrongMask, exVpn 5 False) \<and>
   ErrWrongMask \<noteq> ErrNotImplementedYet \<and>
   255 < unat (last (IP (subnet (exVpn 5 False)))) + unat (300 :: uint32)"
  by (simp add: updateIPAddress_def exVpn_def exSubnet_def hostLimit_slash24)

text \<open>
  C1, amended: on a subnet with a non-empty address, \<open>updateIPAddress\<close> fails
  with \<open>ErrWrongMask\<close> exactly when the alias reaches the limit of the host bits,
  and with the not-implemented error exactly when the alias is below that limit
  and the last octet of the base plus the alias exceeds 255. When both checks
  pass, the address handed to the link keeps every octet but the last, and its
  last octet is the base octet plus the alias exactly, with no wrap-around; in
  every other case nothing is changed.
\<close>

theorem updateIPAddress_last_octet:
  assumes "IP (subnet v) \<noteq> []"
  shows "\<exists>e v'. updateIPAddress lk a v = Ret (e, v') \<and>
     (e = Some ErrWrongMask \<longleftrightarrow> hostLimit (subnet v) \<le> a) \<and>
     (e = Some ErrNotImplementedYet \<longleftrightarrow>
        a < hostLimit (subnet v) \<and> 255 < unat (last (IP (subnet v))) + unat a) \<and>
     (if a < hostLimit (subnet v) \<and> unat (last (IP (subnet v))) + unat a \<le> 255
      then IP (subnet v') \<noteq> [] \<and>
           butlast (IP (subnet v')) = butlast (IP (subnet v)) \<and>
           unat (last (IP (subnet v'))) = unat (last (IP (subnet v))) + unat a \<and>
           trace v' = trace v @ [EvSetLinkIp (IP (subnet v')) (subnet v')]
      else v' = v)"
proof (cases "a < hostLimit (subnet v)")
  case False
  then show ?thesis by (simp add: updateIPAddress_def not_less)
next
  case lim: True
  show ?thesis
  proof (cases "255 < unat (last (IP (subnet v))) + unat a")
    case True
    then show ?thesis using lim by (simp add: updateIPAddress_checked[OF assms lim])
  next
    case False
    then have le: "unat (last (IP (subnet v))) + unat a \<le> 255" by simp
    show ?thesis using lim False octet_plus_alias_byte[OF le]
      by (cases "SetLinkIp lk (IP (subnet (subnetAdvanced a v))) (subnet (subnetAdvanced a v))")
         (simp_all add: updateIPAddress_checked[OF assms lim] emit_def subnetAdvanced_def)
  qed
qed

text \<open>
  On 10.0.0.0/24 the base octet 0 and the alias 240
  pass both checks, and the last octet becomes 240.
\<close>

theorem updateIPAddress_last_octet_witness:
  "IP (subnet (exVpn 5 False)) \<noteq> [] \<and>
   (\<exists>e v'. updateIPAddress exLinker 240 (exVpn 5 False) = Ret (e, v') \<and>
      e \<noteq> Some ErrWrongMask \<and> e \<noteq> Some ErrNotImplementedYet \<and>
      unat (last (IP (subnet v'))) = 240)"
proof -
  have h: "IP (subnet (exVpn 5 False)) \<noteq> []" by (simp add: exVpn_def exSubnet_def)
  have l: "hostLimit (subnet (exVpn 5 False)) = 256"
    by (simp add: exVpn_def exSubnet_def hostLimit_slash24)
  have o: "last (IP (subnet (exVpn 5 False))) = 0" by (simp add: exVpn_def exSubnet_def)
  show ?thesis using h updateIPAddress_last_octet[OF h, of exLinker 240]
    by (auto simp add: l o)
qed

text \<open>
  C10: \<open>updateIPAddress\<close> writes the alias into the last octet of the stored
  subnet base and does not restore it. After a call that passes both range
  checks the stored base is the old one with the alias added to its last
  octet, whatever the link then answers to \<open>SetLinkIp\<close> (the error returned is
  the link's own), and the next computation starts from that base: a second
  call with alias \<open>b\<close> arrives at the original octet plus \<open>a\<close> plus \<open>b\<close>.
\<close>

theorem updateIPAddress_mutates_base:
  assumes ne: "IP (subnet v) \<noteq> []"
    and a: "a < hostLimit (subnet v)"
    and b: "b < hostLimit (subnet v)"
    and sum: "unat (last (IP (subnet v))) + unat a + unat b \<le> 255"
  shows "\<exists>e1 v1 e2 v2.
      updateIPAddress lk1 a v = Ret (e1, v1) \<and>
      e1 = map_option ErrLink (SetLinkIp lk1 (IP (subnet v1)) (subnet v1)) \<and>
      IP (subnet v1) = butlast (IP (subnet v)) @ [last (IP (subnet v)) + ucast a] \<and>
      unat (last (IP (subnet v1))) = unat (last (IP (subnet v))) + unat a \<and>
      updateIPAddress lk2 b v1 = Ret (e2, v2) \<and>
      unat (last (IP (subnet v2))) = unat (last (IP (subnet v))) + unat a + unat b"
proof -
  let ?w = "subnetAdvanced a v"
  let ?v1 = "emit (EvSetLinkIp (IP (subnet ?w)) (subnet ?w)) ?w"
  let ?w2 = "subnetAdvanced b ?v1"
  let ?v2 = "emit (EvSetLinkIp (IP (subnet ?w2)) (subnet ?w2)) ?w2"
  have le1: "unat (last (IP (subnet v))) + unat a \<le> 255" using sum by simp
  have first: "updateIPAddress lk1 a v =
      Ret (map_option ErrLink (SetLinkIp lk1 (IP (subnet ?w)) (subnet ?w)), ?v1)"
    using le1 by (simp add: updateIPAddress_checked[OF ne a])
  have ip1: "IP (subnet ?v1) = butlast (IP (subnet v)) @ [last (IP (subnet v)) + ucast a]"
    by (simp add: emit_def subnetAdvanced_def)
  have last1: "unat (last (IP (subnet ?v1))) = unat (last (IP (subnet v))) + unat a"
    using octet_plus_alias_byte[OF le1] by (simp add: ip1)
  have ne1: "IP (subnet ?v1) \<noteq> []" by (simp add: ip1)
  have b1: "b < hostLimit (subnet ?v1)"
    using b by (simp add: emit_def subnetAdvanced_def hostLimit_IP_update)
  have le2: "unat (last (IP (subnet ?v1))) + unat b \<le> 255" using sum last1 by simp
  have second: "updateIPAddress lk2 b ?v1 =
      Ret (map_option ErrLink (SetLinkIp lk2 (IP (subnet ?w2)) (subnet ?w2)), ?v2)"
    using le2 by (simp add: updateIPAddress_checked[OF ne1 b1])
  have last2: "unat (last (IP (subnet ?v2))) = unat (last (IP (subnet ?v1))) + unat b"
    using octet_plus_alias_byte[OF le2] by (simp add: emit_def subnetAdvanced_def)
  have e1: "map_option ErrLink (SetLinkIp lk1 (IP (subnet ?w)) (subnet ?w)) =
            map_option ErrLink (SetLinkIp lk1 (IP (subnet ?v1)) (subnet ?v1))"
    by (simp add: emit_def)
  show ?thesis using first second ip1 last1 last2 e1 by (metis (no_types, lifting))
qed

text \<open>
  On 10.0.0.0/24 with a link that refuses \<open>SetLinkIp\<close>: the call for alias 5
  fails and leaves 10.0.0.5 as the stored base, and the call that repeats it
  computes 10.0.0.10.
\<close>

theorem updateIPAddress_mutates_base_witness:
  "IP (subnet (exVpn 5 False)) \<noteq> [] \<and>
   (5 :: uint32) < hostLimit (subnet (exVpn 5 False)) \<and>
   unat (last (IP (subnet (exVpn 5 False)))) + unat (5 :: uint32) + unat (5 :: uint32) \<le> 255 \<and>
   (\<exists>v1 e2 v2.
      updateIPAddress (exLinker\<lparr>SetLinkIp := (\<lambda>a n. Some ''refused'')\<rparr>) 5 (exVpn 5 False)
        = Ret (Some (ErrLink ''refused''), v1) \<and>
      IP (subnet v1) = [10, 0, 0, 5] \<and>
      updateIPAddress exLinker 5 v1 = Ret (e2, v2) \<and>
      unat (last (IP (subnet v2))) = 10)"
proof -
  have h: "IP (subnet (exVpn 5 False)) \<noteq> []" by (simp add: exVpn_def exSubnet_def)
  have l: "(5 :: uint32) < hostLimit (subnet (exVpn 5 False))"
    by (simp add: exVpn_def exSubnet_def hostLimit_slash24)
  have o: "IP (subnet (exVpn 5 False)) = [10, 0, 0, 0]" by (simp add: exVpn_def exSubnet_def)
  have s: "unat (last (IP (subnet (exVpn 5 False)))) + unat (5 :: uint32) + unat (5 :: uint32) \<le> 255"
    by (simp add: o)
  show ?thesis
    using h l s
      updateIPAddress_mutates_base[OF h l l s,
        of "exLinker\<lparr>SetLinkIp := (\<lambda>a n. Some ''refused'')\<rparr>" exLinker]
    by (auto simp add: o)
qed

section \<open>Reconciliation of the own address\<close>




text \<open>
  C6, as stated: the last-applied alias starts in a state of its own, so that
  the first membership event triggers the transition for every own alias,
  alias 0 included. It does not: \<open>New\<close> leaves \<open>oldPeerIntAlias\<close> at 0, and with
  own alias 0 the first \<open>updatePeers\<close> returns nil without a call on the link
  and without a change.
\<close>

theorem alias_zero_counterexample:
  "New None None exLinker exSubnet (Some (exHomenet 0)) False = Ret (None, exVpn 0 False) \<and>
   GetPeerIntAlias (exHomenet 0) = 0 \<and>
   updatePeers (aliasToAddress exTag) exLinker (exVpn 0 False) = Ret (None, exVpn 0 False)"
  by (simp add: New_example) (simp add: updatePeers_def exVpn_def exHomenet_def)

text \<open>
  C6, amended: the fabric \<open>New\<close> returns has 0 as its last-applied alias, so the
  first membership event runs the transition for every own alias other than 0,
  and does nothing for own alias 0.
\<close>

theorem first_membership_event:
  assumes "New wn nl lk0 sn (Some h) d = Ret (None, v)"
  shows "oldPeerIntAlias v = 0 \<and> network v = Some h \<and>
     updatePeers gen lk v =
       (if GetPeerIntAlias h = 0 then Ret (None, v)
        else updatePeerIntAlias gen lk (GetPeerIntAlias h) v)"
  using assms
  by (auto simp add: New_def setNetwork_def LockDo_def emit_def updatePeers_def Let_def
      split: option.splits)

theorem first_membership_event_witness:
  "New None None exLinker exSubnet (Some (exHomenet 5)) False = Ret (None, exVpn 5 False) \<and>
   oldPeerIntAlias (exVpn 5 False) = 0 \<and>
   updatePeers (aliasToAddress exTag) exLinker (exVpn 5 False)
     = updatePeerIntAlias (aliasToAddress exTag) exLinker 5 (exVpn 5 False)"
proof -
  have n: "New None None exLinker exSubnet (Some (exHomenet 5)) False = Ret (None, exVpn 5 False)"
    by (rule New_example)
  have g: "GetPeerIntAlias (exHomenet 5) = 5" by (simp add: exHomenet_def)
  show ?thesis using n first_membership_event[OF n, of "aliasToAddress exTag" exLinker]
    by (simp add: g)
qed

section \<open>Teardown\<close>

text \<open>
  C8 says that one call of \<open>Close\<close> unregisters the hook, closes the device,
  signals the pump and returns. The code does none of it: \<open>Close\<close> takes the
  lock through \<open>LockDo\<close> and, holding it, calls \<open>setNetwork\<close>, which takes the
  same lock through \<open>LockDo\<close>. From every state the call blocks forever.
\<close>

theorem Close_blocks: "Close v = Block"
  by (simp add: Close_def LockDo_def setNetwork_def)

section \<open>Round trip of the addressing scheme\<close>

lemma enc_dec:
  "push_bit 24 (ucast (ucast (drop_bit 24 a) :: byte)) OR
   push_bit 16 (ucast (ucast (drop_bit 16 a) :: byte)) OR
   push_bit 8 (ucast (ucast (drop_bit 8 a) :: byte)) OR ucast (ucast a :: byte) = (a :: uint32)"
proof (rule bit_word_eqI)
  fix n assume n: "n < LENGTH(32)"
  consider "n < 8" | "8 \<le> n" "n < 16" | "16 \<le> n" "n < 24" | "24 \<le> n" "n < 32"
    using n by fastforce
  then show "bit (push_bit 24 (ucast (ucast (drop_bit 24 a) :: byte)) OR
       push_bit 16 (ucast (ucast (drop_bit 16 a) :: byte)) OR
       push_bit 8 (ucast (ucast (drop_bit 8 a) :: byte)) OR ucast (ucast a :: byte) :: uint32) n
     = bit a n"
    by cases (auto simp add: bit_simps not_less not_le)
qed

text \<open>
  C2: for every alias, decoding the synthetic address made for it gives the
  alias back, the address is recognised as a homenet address, and two aliases
  with the same address are the same alias.
\<close>

theorem addressToAlias_aliasToAddress:
  assumes "length tag = 2"
  shows "addressToAlias (aliasToAddress tag a) = a \<and>
         isHomenet tag (aliasToAddress tag a) \<and>
         (aliasToAddress tag a = aliasToAddress tag b \<longleftrightarrow> a = b)"
proof -
  obtain t1 t2 where tag: "tag = [t1, t2]"
    using assms by (cases tag; cases "tl tag") auto
  have rt: "addressToAlias (aliasToAddress tag x) = x" for x
    by (simp add: tag addressToAlias_def aliasToAddress_def enc_dec)
  have "a = b" if "aliasToAddress tag a = aliasToAddress tag b"
    using rt that by metis
  moreover have "isHomenet tag (aliasToAddress tag a)"
    using assms by (simp add: isHomenet_def aliasToAddress_def)
  ultimately show ?thesis using rt by blast
qed

theorem addressToAlias_aliasToAddress_witness:
  "length exTag = 2 \<and> aliasToAddress exTag 5 = [2, 0, 0, 0, 0, 5] \<and>
   addressToAlias (aliasToAddress exTag 5) = 5"
  using addressToAlias_aliasToAddress[of exTag 5 5] by (simp add: exTag_def aliasToAddress_def)

section \<open>The frame pump\<close>

lemma attempts_append: "attempts (xs @ ys) = attempts xs @ attempts ys"
  by (induction xs rule: attempts.induct) simp_all

lemma logged_append: "logged (xs @ ys) = logged xs @ logged ys"
  by (induction xs rule: logged.induct) simp_all

lemma sendVia_returns:
  assumes "\<not> loggerDump v \<or> headerComplete f"
  shows "\<exists>v1. sendVia tp v p f = Ret (map_option ErrSend (tp p (frameBytes f)), v1) \<and>
     attempts (trace v1) = attempts (trace v) @ [GetID p] \<and>
     logged (trace v1) = logged (trace v) \<and>
     loggerDump v1 = loggerDump v \<and> network v1 = network v \<and> closeChan v1 = closeChan v"
  using assms
  by (auto simp add: sendVia_def SendToPeer_def headerComplete_def returns_def emit_def Let_def
      attempts_append logged_append split: res.splits)

lemma SendToPeer_sendVia: "SendToPeer = sendVia (\<lambda>p bytes. None)"
  by (intro ext) (auto simp add: sendVia_def SendToPeer_def Let_def split: res.splits)

lemma logIfError_fields:
  "attempts (trace (logIfError e v)) = attempts (trace v)"
  "logged (trace (logIfError e v)) = logged (trace v) @ (case e of None \<Rightarrow> [] | Some x \<Rightarrow> [x])"
  "loggerDump (logIfError e v) = loggerDump v"
  "network (logIfError e v) = network v"
  "closeChan (logIfError e v) = closeChan v"
  by (cases e; simp add: logIfError_def emit_def attempts_append logged_append)+

lemma foreachPeerLoop_broadcast:
  assumes "\<not> loggerDump v \<or> headerComplete f"
  shows "\<exists>v'. foreachPeerLoop me
            (\<lambda>peer w. case sendVia tp w peer f of
                         Panic \<Rightarrow> Panic | Block \<Rightarrow> Block
                       | Ret (e, w1) \<Rightarrow> Ret (True, logIfError e w1)) ps v = Ret v' \<and>
     attempts (trace v') = attempts (trace v) @ map GetID (filter (\<lambda>p. GetID p \<noteq> me) ps) \<and>
     logged (trace v') = logged (trace v) @
        List.map_filter (\<lambda>p. map_option ErrSend (tp p (frameBytes f))) (filter (\<lambda>p. GetID p \<noteq> me) ps) \<and>
     loggerDump v' = loggerDump v \<and> network v' = network v \<and> closeChan v' = closeChan v"
  using assms
proof (induction ps arbitrary: v)
  case Nil
  then show ?case by (simp add: List.map_filter_simps)
next
  case (Cons p ps)
  show ?case
  proof (cases "GetID p = me")
    case True
    then show ?thesis using Cons.IH[OF Cons.prems] by simp
  next
    case False
    obtain v1 where s: "sendVia tp v p f = Ret (map_option ErrSend (tp p (frameBytes f)), v1)"
      and v1: "attempts (trace v1) = attempts (trace v) @ [GetID p]"
        "logged (trace v1) = logged (trace v)"
        "loggerDump v1 = loggerDump v" "network v1 = network v" "closeChan v1 = closeChan v"
      using sendVia_returns[OF Cons.prems, of tp p] by blast
    let ?w = "logIfError (map_option ErrSend (tp p (frameBytes f))) v1"
    have d: "\<not> loggerDump ?w \<or> headerComplete f"
      using Cons.prems v1 by (simp add: logIfError_fields)
    obtain v' where l: "foreachPeerLoop me
            (\<lambda>peer w. case sendVia tp w peer f of
                         Panic \<Rightarrow> Panic | Block \<Rightarrow> Block
                       | Ret (e, w1) \<Rightarrow> Ret (True, logIfError e w1)) ps ?w = Ret v'"
      and v': "attempts (trace v') = attempts (trace ?w) @ map GetID (filter (\<lambda>p. GetID p \<noteq> me) ps)"
        "logged (trace v') = logged (trace ?w) @
           List.map_filter (\<lambda>p. map_option ErrSend (tp p (frameBytes f))) (filter (\<lambda>p. GetID p \<noteq> me) ps)"
        "loggerDump v' = loggerDump ?w" "network v' = network ?w" "closeChan v' = closeChan ?w"
      using Cons.IH[OF d] by blast
    show ?thesis using False s l v1 v'
      by (cases "tp p (frameBytes f)") (simp_all add: logIfError_fields List.map_filter_simps)
  qed
qed

text \<open>
  Which frames have a complete header: every frame of 22 bytes or more, and
  every untagged frame of 14 bytes or more.
\<close>

lemma headerComplete_long:
  assumes "22 \<le> flen f" and "flen f \<le> length (store f)"
  shows "headerComplete f"
  using assms
  by (simp add: headerComplete_def returns_def Destination_def Source_def Ethertype_def
      Tagging_def Payload_def frameIndex_def)

lemma headerComplete_untagged:
  assumes "14 \<le> flen f" and "flen f \<le> length (store f)"
    and "store f ! 12 \<noteq> 0x81" and "store f ! 12 \<noteq> 0x88"
  shows "headerComplete f"
  using assms
  by (simp add: headerComplete_def returns_def Destination_def Source_def Ethertype_def
      Tagging_def Payload_def frameIndex_def)

text \<open>
  With a dump logger, \<open>SendToPeer\<close> on a frame whose header is not complete
  panics in its dump line; a loop over the peers panics at the first peer that
  is not the own one.
\<close>

lemma accessors_not_Block:
  "Destination f \<noteq> Block" "Source f \<noteq> Block" "Ethertype f \<noteq> Block" "Payload f \<noteq> Block"
  by (simp_all add: Destination_def Source_def Ethertype_def Payload_def Tagging_def frameIndex_def
      split: res.splits)

lemma SendToPeer_panics:
  assumes "loggerDump v" and "\<not> headerComplete f"
  shows "SendToPeer v p f = Panic"
  using assms accessors_not_Block[of f]
  by (auto simp add: SendToPeer_def headerComplete_def returns_def emit_def Let_def
      split: res.splits)

lemma foreachPeerLoop_panics:
  assumes "filter (\<lambda>p. GetID p \<noteq> me) ps \<noteq> []" and "\<And>p. fn p v = Panic"
  shows "foreachPeerLoop me fn ps v = Panic"
  using assms by (induction ps) auto

lemma foreachPeerLoop_no_others:
  assumes "filter (\<lambda>p. GetID p \<noteq> me) ps = []"
  shows "foreachPeerLoop me fn ps v = Ret v"
  using assms by (induction ps) (auto split: if_splits)

lemma after_read_error:
  "attempts (trace (case err of None \<Rightarrow> v | Some msg \<Rightarrow> emit (EvSleep 1) (emit (EvLogError (ErrRead msg)) v)))
     = attempts (trace v)"
  "logged (trace (case err of None \<Rightarrow> v | Some msg \<Rightarrow> emit (EvSleep 1) (emit (EvLogError (ErrRead msg)) v)))
     = logged (trace v) @ (case err of None \<Rightarrow> [] | Some msg \<Rightarrow> [ErrRead msg])"
  "loggerDump (case err of None \<Rightarrow> v | Some msg \<Rightarrow> emit (EvSleep 1) (emit (EvLogError (ErrRead msg)) v))
     = loggerDump v"
  "network (case err of None \<Rightarrow> v | Some msg \<Rightarrow> emit (EvSleep 1) (emit (EvLogError (ErrRead msg)) v))
     = network v"
  by (cases err; simp add: emit_def attempts_append logged_append)+

lemma broadcast_round:
  assumes net: "network v = Some h"
    and cap: "6 \<le> length framebuf" and n: "n \<le> length framebuf"
    and dst: "\<not> IsHomenet ops (take 6 framebuf)" "IsBroadcast ops (take 6 framebuf)"
  shows "if \<not> loggerDump v \<or> headerComplete \<lparr>store = framebuf, flen = n\<rparr> \<or> otherPeers h = []
     then \<exists>v'. tapReadRound ops (sendVia t) framebuf n err v = Ret v' \<and>
            attempts (trace v') = attempts (trace v) @ map GetID (otherPeers h) \<and>
            logged (trace v') = logged (trace v) @
              (case err of None \<Rightarrow> [] | Some msg \<Rightarrow> [ErrRead msg]) @
              List.map_filter (\<lambda>p. map_option ErrSend (t p (take n framebuf))) (otherPeers h)
     else tapReadRound ops (sendVia t) framebuf n err v = Panic"
proof -
  let ?f = "\<lparr>store = framebuf, flen = n\<rparr>"
  let ?v1 = "case err of None \<Rightarrow> v | Some msg \<Rightarrow> emit (EvSleep 1) (emit (EvLogError (ErrRead msg)) v)"
  let ?cb = "\<lambda>peer w. case sendVia t w peer ?f of
                         Panic \<Rightarrow> Panic | Block \<Rightarrow> Block
                       | Ret (e, w1) \<Rightarrow> Ret (True, logIfError e w1)"
  note v1 = after_read_error[where err = err and v = v]
  have round: "tapReadRound ops (sendVia t) framebuf n err v
       = foreachPeerLoop (GetPeerID h) ?cb (GetPeers h) ?v1"
    using net cap n dst v1(4)
    by (simp add: tapReadRound_def sliceTo_def Destination_def ForeachPeer_def)
  show ?thesis
  proof (cases "\<not> loggerDump v \<or> headerComplete ?f")
    case True
    then have hdr: "\<not> loggerDump ?v1 \<or> headerComplete ?f" using v1(3) by simp
    obtain v' where l: "foreachPeerLoop (GetPeerID h) ?cb (GetPeers h) ?v1 = Ret v'"
      and v': "attempts (trace v') =
          attempts (trace ?v1) @ map GetID (filter (\<lambda>p. GetID p \<noteq> GetPeerID h) (GetPeers h))"
        "logged (trace v') = logged (trace ?v1) @
           List.map_filter (\<lambda>p. map_option ErrSend (t p (frameBytes ?f)))
             (filter (\<lambda>p. GetID p \<noteq> GetPeerID h) (GetPeers h))"
      using foreachPeerLoop_broadcast[OF hdr, of "GetPeerID h" t "GetPeers h"] by blast
    show ?thesis using True round l v' v1(1,2)
      by (simp add: otherPeers_def frameBytes_def)
  next
    case False
    then have dump: "loggerDump ?v1" "\<not> headerComplete ?f" using v1(3) by simp_all
    show ?thesis
    proof (cases "otherPeers h = []")
      case True
      then have "foreachPeerLoop (GetPeerID h) ?cb (GetPeers h) ?v1 = Ret ?v1"
        by (intro foreachPeerLoop_no_others) (simp add: otherPeers_def)
      then show ?thesis using True round v1(1,2) by (simp add: List.map_filter_simps)
    next
      case others: False
      have "?cb p ?v1 = Panic" for p
        using SendToPeer_panics[OF dump, of p] by (simp add: sendVia_def)
      then have "foreachPeerLoop (GetPeerID h) ?cb (GetPeers h) ?v1 = Panic"
        using others by (intro foreachPeerLoop_panics) (simp_all add: otherPeers_def)
      then show ?thesis using False others round by simp
    qed
  qed
qed

text \<open>
  C3, as stated: for every broadcast-destined frame, with N peers other than
  the own one in the directory, exactly N delivery attempts are made. Not for
  every frame: with a dump logger, a broadcast frame of 13 bytes and two other
  peers, the round panics in the dump line of the first \<open>SendToPeer\<close>, and so
  does the pump.
\<close>

theorem runt_broadcast_counterexample:
  "IsBroadcast (homenetOps exTag) (take 6 (exRuntFrame @ replicate 1501 0)) \<and>
   length (otherPeers (exHomenet 5)) = 2 \<and>
   tapReadRound (homenetOps exTag) SendToPeer (exRuntFrame @ replicate 1501 0) 13 None (exVpn 5 True)
     = Panic \<and>
   fst (tapReadHandler (homenetOps exTag) [ReadMsg exRuntFrame None] (exVpn 5 True)) = Panicked"
proof -
  have a: "IsBroadcast (homenetOps exTag) (take 6 (exRuntFrame @ replicate 1501 0))"
    by (simp add: homenetOps_def isBroadcast_def exRuntFrame_def)
  have b: "length (otherPeers (exHomenet 5)) = 2"
    by (simp add: otherPeers_def exHomenet_def exPeers_def)
  have c: "tapReadRound (homenetOps exTag) SendToPeer (exRuntFrame @ replicate 1501 0) 13 None
             (exVpn 5 True) = Panic"
    by (simp add: tapReadRound_def sliceTo_def Destination_def Source_def Ethertype_def Tagging_def
        frameIndex_def homenetOps_def isHomenet_def isBroadcast_def exTag_def exRuntFrame_def
        ForeachPeer_def exVpn_def exHomenet_def exPeers_def SendToPeer_def emit_def Let_def)
  have d: "fst (tapReadHandler (homenetOps exTag) [ReadMsg exRuntFrame None] (exVpn 5 True)) = Panicked"
    by code_simp
  show ?thesis using a b c d by simp
qed

text \<open>
  C3, amended: for a round whose buffer has a broadcast destination that is not
  homenet-tagged, after a read with or without error: when no dump logger is
  set, or the header of the frame is complete, or the directory holds no peer
  other than the own one, \<open>SendToPeer\<close> is called once for every peer of the
  directory other than the own one, in the order of the directory, as many
  attempts as there are such peers. This holds for \<open>SendToPeer\<close> as the source
  has it, which reports success always, and whatever a delivery \<open>sendVia tp\<close>
  answers: each failure is logged, and the attempts after it are made all the
  same. In the remaining case the round panics.
\<close>

theorem broadcast_attempts:
  assumes net: "network v = Some h"
    and cap: "6 \<le> length framebuf" and n: "n \<le> length framebuf"
    and dst: "\<not> IsHomenet ops (take 6 framebuf)" "IsBroadcast ops (take 6 framebuf)"
  shows "if \<not> loggerDump v \<or> headerComplete \<lparr>store = framebuf, flen = n\<rparr> \<or> otherPeers h = []
     then (\<exists>v'. tapReadRound ops SendToPeer framebuf n err v = Ret v' \<and>
             attempts (trace v') = attempts (trace v) @ map GetID (otherPeers h) \<and>
             length (attempts (trace v')) = length (attempts (trace v)) + length (otherPeers h)) \<and>
          (\<exists>v'. tapReadRound ops (sendVia tp) framebuf n err v = Ret v' \<and>
             attempts (trace v') = attempts (trace v) @ map GetID (otherPeers h) \<and>
             length (attempts (trace v')) = length (attempts (trace v)) + length (otherPeers h) \<and>
             logged (trace v') = logged (trace v) @
               (case err of None \<Rightarrow> [] | Some msg \<Rightarrow> [ErrRead msg]) @
               List.map_filter (\<lambda>p. map_option ErrSend (tp p (take n framebuf))) (otherPeers h))
     else tapReadRound ops SendToPeer framebuf n err v = Panic \<and>
          tapReadRound ops (sendVia tp) framebuf n err v = Panic"
proof (cases "\<not> loggerDump v \<or> headerComplete \<lparr>store = framebuf, flen = n\<rparr> \<or> otherPeers h = []")
  case True
  have a: "\<exists>v'. tapReadRound ops SendToPeer framebuf n err v = Ret v' \<and>
      attempts (trace v') = attempts (trace v) @ map GetID (otherPeers h) \<and>
      length (attempts (trace v')) = length (attempts (trace v)) + length (otherPeers h)"
    using broadcast_round[OF net cap n dst, of "\<lambda>p bytes. None" err] True
    unfolding SendToPeer_sendVia by auto
  have b: "\<exists>v'. tapReadRound ops (sendVia tp) framebuf n err v = Ret v' \<and>
      attempts (trace v') = attempts (trace v) @ map GetID (otherPeers h) \<and>
      length (attempts (trace v')) = length (attempts (trace v)) + length (otherPeers h) \<and>
      logged (trace v') = logged (trace v) @
        (case err of None \<Rightarrow> [] | Some msg \<Rightarrow> [ErrRead msg]) @
        List.map_filter (\<lambda>p. map_option ErrSend (tp p (take n framebuf))) (otherPeers h)"
    using broadcast_round[OF net cap n dst, of tp err] True by auto
  show ?thesis using True a b by simp
next
  case False
  have "tapReadRound ops SendToPeer framebuf n err v = Panic"
    using broadcast_round[OF net cap n dst, of "\<lambda>p bytes. None" err] False
    unfolding SendToPeer_sendVia by simp
  moreover have "tapReadRound ops (sendVia tp) framebuf n err v = Panic"
    using broadcast_round[OF net cap n dst, of tp err] False by simp
  ultimately show ?thesis using False by simp
qed

text \<open>
  A directory of this peer, alice and bob, a dump logger, and a transport that
  fails for alice: both are attempted, and the failure is logged.
\<close>

theorem broadcast_attempts_witness:
  "network (exVpn 5 True) = Some (exHomenet 5) \<and>
   6 \<le> length (exBroadcastFrame @ replicate 1500 0) \<and>
   14 \<le> length (exBroadcastFrame @ replicate 1500 0) \<and>
   \<not> IsHomenet (homenetOps exTag) (take 6 (exBroadcastFrame @ replicate 1500 0)) \<and>
   IsBroadcast (homenetOps exTag) (take 6 (exBroadcastFrame @ replicate 1500 0)) \<and>
   headerComplete \<lparr>store = exBroadcastFrame @ replicate 1500 0, flen = 14\<rparr> \<and>
   (\<exists>v'. tapReadRound (homenetOps exTag)
            (sendVia (\<lambda>p bytes. if GetID p = ''alice'' then Some ''unreachable'' else None))
            (exBroadcastFrame @ replicate 1500 0) 14 None (exVpn 5 True) = Ret v' \<and>
         attempts (trace v') = [''alice'', ''bob''] \<and>
         logged (trace v') = [ErrSend ''unreachable''])"
proof -
  let ?fb = "exBroadcastFrame @ replicate 1500 0"
  have n: "network (exVpn 5 True) = Some (exHomenet 5)" by (simp add: exVpn_def)
  have c: "6 \<le> length ?fb" by simp
  have l: "14 \<le> length ?fb" by (simp add: exBroadcastFrame_def)
  have t: "take 6 ?fb = [0xFF, 0xFF, 0xFF, 0xFF, 0xFF, 0xFF]" by (simp add: exBroadcastFrame_def)
  have d1: "\<not> IsHomenet (homenetOps exTag) (take 6 ?fb)"
    unfolding t by (simp add: homenetOps_def isHomenet_def exTag_def)
  have d2: "IsBroadcast (homenetOps exTag) (take 6 ?fb)"
    unfolding t by (simp add: homenetOps_def isBroadcast_def)
  have hc: "headerComplete \<lparr>store = ?fb, flen = 14\<rparr>"
    by (simp add: headerComplete_def returns_def Destination_def Source_def Ethertype_def
        Tagging_def Payload_def frameIndex_def exBroadcastFrame_def)
  have o: "otherPeers (exHomenet 5) = [\<lparr>GetID = ''alice'', GetIntAlias = 6\<rparr>, \<lparr>GetID = ''bob'', GetIntAlias = 7\<rparr>]"
    by (simp add: otherPeers_def exHomenet_def exPeers_def)
  have tr: "attempts (trace (exVpn 5 True)) = []" "logged (trace (exVpn 5 True)) = []"
    by (simp_all add: exVpn_def)
  show ?thesis
    using n c l d1 d2 hc
      broadcast_attempts[OF n c l d1 d2,
        where tp = "\<lambda>p bytes. if GetID p = ''alice'' then Some ''unreachable'' else None"
          and err = None]
    by (auto simp add: o tr List.map_filter_simps)
qed

text \<open>
  C4: a frame read without error whose destination is homenet-tagged and
  decodes to an alias the directory does not hold causes no call of
  \<open>SendToPeer\<close>; \<open>ErrPeerNotFound\<close> is logged, once, and the pump goes on with
  the messages that follow.
\<close>

theorem absent_alias_dropped:
  assumes net: "network v = Some h"
    and cap: "6 \<le> length framebuf"
    and rd: "readInto framebuf bytes = (framebuf', n)"
    and dst: "IsHomenet ops (take 6 framebuf')"
    and absent: "GetPeerByIntAlias h (macGetPeerIntAlias ops (take 6 framebuf')) = None"
  shows "tapReadRound ops send framebuf' n None v
           = Ret (emit (EvLogError (ErrPeerNotFound (macGetPeerIntAlias ops (take 6 framebuf')))) v) \<and>
         attempts (trace (emit (EvLogError (ErrPeerNotFound (macGetPeerIntAlias ops (take 6 framebuf')))) v))
           = attempts (trace v) \<and>
         tapReadLoop ops send framebuf (ReadMsg bytes None # ms) v
           = tapReadLoop ops send framebuf' ms
               (emit (EvLogError (ErrPeerNotFound (macGetPeerIntAlias ops (take 6 framebuf')))) v)"
proof -
  have len: "length framebuf' = length framebuf" "n \<le> length framebuf'"
    using rd by (auto simp add: readInto_def Let_def)
  have r: "tapReadRound ops send framebuf' n None v
           = Ret (emit (EvLogError (ErrPeerNotFound (macGetPeerIntAlias ops (take 6 framebuf')))) v)"
    using net cap len dst absent
    by (simp add: tapReadRound_def sliceTo_def Destination_def SendToPeerByIntAlias_def logIfError_def)
  show ?thesis using r rd net by (simp add: emit_def attempts_append)
qed

text \<open>A frame for alias 9, which the directory does not hold.\<close>

theorem absent_alias_dropped_witness:
  "network (exVpn 5 False) = Some (exHomenet 5) \<and>
   6 \<le> length (replicate 1514 (0 :: byte)) \<and>
   readInto (replicate 1514 0) [2, 0, 0, 0, 0, 9, 2, 0, 0, 0, 0, 5, 8, 0]
     = ([2, 0, 0, 0, 0, 9, 2, 0, 0, 0, 0, 5, 8, 0] @ replicate 1500 0, 14) \<and>
   IsHomenet (homenetOps exTag) [2, 0, 0, 0, 0, 9] \<and>
   GetPeerByIntAlias (exHomenet 5) 9 = None \<and>
   tapReadLoop (homenetOps exTag) SendToPeer (replicate 1514 0)
       [ReadMsg [2, 0, 0, 0, 0, 9, 2, 0, 0, 0, 0, 5, 8, 0] None] (exVpn 5 False)
     = (Waiting, emit (EvLogError (ErrPeerNotFound 9)) (exVpn 5 False))"
proof -
  let ?fb = "[2, 0, 0, 0, 0, 9, 2, 0, 0, 0, 0, 5, 8, 0] @ replicate 1500 (0 :: byte)"
  have n: "network (exVpn 5 False) = Some (exHomenet 5)" by (simp add: exVpn_def)
  have c: "6 \<le> length (replicate 1514 (0 :: byte))" by simp
  have r: "readInto (replicate 1514 0) [2, 0, 0, 0, 0, 9, 2, 0, 0, 0, 0, 5, 8, 0] = (?fb, 14)"
    by (simp add: readInto_def)
  have t: "take 6 ?fb = [2, 0, 0, 0, 0, 9]" by simp
  have a: "macGetPeerIntAlias (homenetOps exTag) [2, 0, 0, 0, 0, 9] = 9"
    by (simp add: homenetOps_def addressToAlias_def)
  have d: "IsHomenet (homenetOps exTag) (take 6 ?fb)"
    unfolding t by (simp add: homenetOps_def isHomenet_def exTag_def)
  have p: "GetPeerByIntAlias (exHomenet 5) 9 = None"
    by (simp add: exHomenet_def exPeers_def)
  have p': "GetPeerByIntAlias (exHomenet 5) (macGetPeerIntAlias (homenetOps exTag) (take 6 ?fb)) = None"
    unfolding t a by (rule p)
  show ?thesis
    using n c r d p absent_alias_dropped[OF n c r d p', of SendToPeer "[]"]
    unfolding t a
    by (simp add: exVpn_def emit_def)
qed

text \<open>
  C9, as stated: after a read error with fewer than 6 bytes the access to the
  destination is out of bounds. It is not: the frame \<open>framebuf[:n]\<close> keeps the
  capacity of the buffer, \<open>Destination\<close> is the slice expression \<open>f[:6:6]\<close>, which
  is checked against the capacity, and the pump goes on. For a read of 0 bytes
  with an error into the fresh buffer the destination is six zero bytes and the
  pump waits for its next message.
\<close>

theorem short_read_destination_counterexample:
  "Destination \<lparr>store = replicate 1514 0, flen = 0\<rparr> = Ret [0, 0, 0, 0, 0, 0] \<and>
   fst (tapReadHandler (homenetOps exTag) [ReadMsg [] (Some ''EIO'')] (exVpn 5 False)) = Waiting \<and>
   trace (snd (tapReadHandler (homenetOps exTag) [ReadMsg [] (Some ''EIO'')] (exVpn 5 False)))
     = [EvSetLinkUp, EvAddHooker, EvLogError (ErrRead ''EIO''), EvSleep 1]"
  by code_simp

text \<open>
  C9, amended: after a read error the pump logs and sleeps and then handles the
  buffer exactly as it handles a frame read without error: the error branch
  does not skip the dispatch. The frame is \<open>framebuf[:n]\<close>, and its destination
  is the first 6 bytes of the buffer whatever \<open>n\<close> is, also for \<open>n < 6\<close>: the
  bytes an earlier read left there.
\<close>

theorem read_error_still_dispatched:
  assumes cap: "6 \<le> length framebuf" and rd: "readInto framebuf bytes = (framebuf', n)"
  shows "sliceTo framebuf' n = Ret \<lparr>store = framebuf', flen = n\<rparr> \<and>
         Destination \<lparr>store = framebuf', flen = n\<rparr> = Ret (take 6 framebuf') \<and>
         tapReadRound ops send framebuf' n (Some msg) v
           = tapReadRound ops send framebuf' n None
               (emit (EvSleep 1) (emit (EvLogError (ErrRead msg)) v))"
proof -
  have len: "length framebuf' = length framebuf" "n \<le> length framebuf'"
    using rd by (auto simp add: readInto_def Let_def)
  show ?thesis using cap len
    by (simp add: tapReadRound_def sliceTo_def Destination_def)
qed

text \<open>
  A failed read of 0 bytes into a buffer that still holds a broadcast frame:
  the destination is the broadcast address.
\<close>

theorem read_error_still_dispatched_witness:
  "6 \<le> length (exBroadcastFrame @ replicate 1500 0) \<and>
   readInto (exBroadcastFrame @ replicate 1500 0) [] = (exBroadcastFrame @ replicate 1500 0, 0) \<and>
   Destination \<lparr>store = exBroadcastFrame @ replicate 1500 0, flen = 0\<rparr>
     = Ret [0xFF, 0xFF, 0xFF, 0xFF, 0xFF, 0xFF] \<and>
   tapReadRound (homenetOps exTag) SendToPeer (exBroadcastFrame @ replicate 1500 0) 0 (Some ''EIO'')
       (exVpn 5 False)
     = tapReadRound (homenetOps exTag) SendToPeer (exBroadcastFrame @ replicate 1500 0) 0 None
         (emit (EvSleep 1) (emit (EvLogError (ErrRead ''EIO'')) (exVpn 5 False)))"
proof -
  have c: "6 \<le> length (exBroadcastFrame @ replicate 1500 0)" by simp
  have r: "readInto (exBroadcastFrame @ replicate 1500 0) [] = (exBroadcastFrame @ replicate 1500 0, 0)"
    by (simp add: readInto_def)
  show ?thesis
    using c r read_error_still_dispatched[OF c r, of "homenetOps exTag" SendToPeer "''EIO''" "exVpn 5 False"]
    by (simp add: exBroadcastFrame_def)
qed

text \<open>
  Without a dump logger a round of the pump returns whatever it reads, and the
  pump, on messages whose lengths fit the buffer, ends only on a nil handle or
  on the close signal.
\<close>

lemma tapReadRound_without_dump:
  assumes net: "network v = Some h" and cap: "6 \<le> length framebuf" and n: "n \<le> length framebuf"
    and nodump: "\<not> loggerDump v"
  shows "\<exists>v'. tapReadRound ops SendToPeer framebuf n err v = Ret v' \<and>
     network v' = network v \<and> loggerDump v' = loggerDump v \<and> closeChan v' = closeChan v"
proof -
  let ?f = "\<lparr>store = framebuf, flen = n\<rparr>"
  let ?v1 = "case err of None \<Rightarrow> v | Some msg \<Rightarrow> emit (EvSleep 1) (emit (EvLogError (ErrRead msg)) v)"
  have v1: "network ?v1 = Some h" "\<not> loggerDump ?v1" "closeChan ?v1 = closeChan v" "loggerDump ?v1 = loggerDump v"
    using net nodump by (cases err; simp add: emit_def)+
  have hdr: "\<not> loggerDump ?v1 \<or> headerComplete ?f" using v1 by simp
  show ?thesis
  proof (cases "IsHomenet ops (take 6 framebuf)")
    case hn: True
    show ?thesis
    proof (cases "GetPeerByIntAlias h (macGetPeerIntAlias ops (take 6 framebuf))")
      case None
      then show ?thesis using net hn cap n v1
        by (simp add: tapReadRound_def sliceTo_def Destination_def SendToPeerByIntAlias_def
            logIfError_fields)
    next
      case (Some peer)
      obtain w where s: "sendVia (\<lambda>p bytes. None) ?v1 peer ?f = Ret (None, w)"
        and w: "loggerDump w = loggerDump ?v1" "network w = network ?v1" "closeChan w = closeChan ?v1"
        using sendVia_returns[OF hdr, of "\<lambda>p bytes. None" peer] by auto
      show ?thesis using net hn cap n v1 Some s w
        by (simp add: tapReadRound_def sliceTo_def Destination_def SendToPeerByIntAlias_def
            logIfError_fields SendToPeer_sendVia)
    qed
  next
    case nh: False
    show ?thesis
    proof (cases "IsBroadcast ops (take 6 framebuf)")
      case False
      then show ?thesis using net nh cap n v1
        by (simp add: tapReadRound_def sliceTo_def Destination_def)
    next
      case True
      obtain v' where l: "foreachPeerLoop (GetPeerID h)
            (\<lambda>peer w. case sendVia (\<lambda>p bytes. None) w peer ?f of
                         Panic \<Rightarrow> Panic | Block \<Rightarrow> Block
                       | Ret (e, w1) \<Rightarrow> Ret (True, logIfError e w1)) (GetPeers h) ?v1 = Ret v'"
        and v': "loggerDump v' = loggerDump ?v1" "network v' = network ?v1" "closeChan v' = closeChan ?v1"
        using foreachPeerLoop_broadcast[OF hdr, of "GetPeerID h" "\<lambda>p bytes. None" "GetPeers h"] by blast
      show ?thesis using net nh True cap n v1 l v'
        by (simp add: tapReadRound_def sliceTo_def Destination_def ForeachPeer_def SendToPeer_sendVia)
    qed
  qed
qed

lemma tapReadLoop_without_dump:
  assumes "6 \<le> length framebuf" and "\<not> loggerDump v"
    and "list_all (\<lambda>m. case m of Taken n err \<Rightarrow> n \<le> length framebuf | _ \<Rightarrow> True) ms"
  shows "fst (tapReadLoop ops SendToPeer framebuf ms v) = Waiting \<or>
         fst (tapReadLoop ops SendToPeer framebuf ms v) = Returned \<and>
           (network v = None \<or> closeChan v \<noteq> NilChan \<and> CloseSignal \<in> set ms)"
  using assms
proof (induction ms arbitrary: framebuf v)
  case Nil
  then show ?case by simp
next
  case (Cons m ms)
  have rest: "list_all (\<lambda>m. case m of Taken n err \<Rightarrow> n \<le> length framebuf | _ \<Rightarrow> True) ms"
    using Cons.prems(3) by simp
  show ?case
  proof (cases "network v")
    case None
    then show ?thesis by simp
  next
    case (Some h)
    show ?thesis
    proof (cases m)
      case CloseSignal
      then show ?thesis using Some Cons.IH[OF Cons.prems(1,2) rest] by auto
    next
      case (ReadMsg bytes err)
      obtain fb' n where rd: "readInto framebuf bytes = (fb', n)" by (cases "readInto framebuf bytes")
      then have len: "length fb' = length framebuf" "n \<le> length fb'"
        by (auto simp add: readInto_def Let_def)
      have cap': "6 \<le> length fb'" using len Cons.prems by simp
      have rest': "list_all (\<lambda>m. case m of Taken n err \<Rightarrow> n \<le> length fb' | _ \<Rightarrow> True) ms"
        using rest unfolding len(1) by assumption
      obtain v' where r: "tapReadRound ops SendToPeer fb' n err v = Ret v'"
        and v': "network v' = network v" "loggerDump v' = loggerDump v" "closeChan v' = closeChan v"
        using tapReadRound_without_dump[OF Some cap' len(2) Cons.prems(2)] by blast
      have nd: "\<not> loggerDump v'" using v' Cons.prems by simp
      show ?thesis using ReadMsg Some rd r v' Cons.IH[OF cap' nd rest'] by auto
    next
      case (Filled bytes)
      obtain fb' n where rd: "readInto framebuf bytes = (fb', n)" by (cases "readInto framebuf bytes")
      then have len: "length fb' = length framebuf" by (auto simp add: readInto_def Let_def)
      have cap': "6 \<le> length fb'" using len Cons.prems by simp
      have rest': "list_all (\<lambda>m. case m of Taken n err \<Rightarrow> n \<le> length fb' | _ \<Rightarrow> True) ms"
        using rest unfolding len(1) by assumption
      show ?thesis using Filled Some rd Cons.IH[OF cap' Cons.prems(2) rest'] by auto
    next
      case (Taken n err)
      then have n: "n \<le> length framebuf" using Cons.prems(3) by simp
      obtain v' where r: "tapReadRound ops SendToPeer framebuf n err v = Ret v'"
        and v': "network v' = network v" "loggerDump v' = loggerDump v" "closeChan v' = closeChan v"
        using tapReadRound_without_dump[OF Some Cons.prems(1) n Cons.prems(2)] by blast
      have nd: "\<not> loggerDump v'" using v' Cons.prems by simp
      show ?thesis using Taken Some r v' Cons.IH[OF Cons.prems(1) nd rest] by auto
    qed
  qed
qed

text \<open>
  A failed read of 0 bytes followed by a read of a broadcast frame that writes
  to the buffer before the pump has dispatched the first: the round of the
  failed read goes to the peers, on the destination of the later frame, with an
  empty frame.
\<close>

lemma read_lands_before_dispatch:
  "trace (snd (tapReadHandler (homenetOps exTag)
      [Filled [], Filled exBroadcastFrame, Taken 0 (Some ''EIO''), Taken 14 None] (exVpn 5 False)))
   = [EvSetLinkUp, EvAddHooker, EvLogError (ErrRead ''EIO''), EvSleep 1,
      EvSendToPeer ''alice'' [], EvSendToPeer ''bob'' [],
      EvSendToPeer ''alice'' exBroadcastFrame, EvSendToPeer ''bob'' exBroadcastFrame]"
  by code_simp

text \<open>
  C7 says that a read error is logged and followed by a fixed delay, and that
  the loop never ends because of a read error. The first half holds. The
  second does not: after the delay the
  round falls through to the dispatch of \<open>framebuf[:n]\<close>. With a dump logger and
  a buffer that still holds a broadcast frame, a failed read of 0 bytes reaches
  \<open>SendToPeer\<close>, whose dump line evaluates \<open>Ethertype\<close> on the empty frame, an
  index beyond its length: the pump panics.
\<close>

theorem read_error_panics_with_dump:
  "fst (tapReadHandler (homenetOps exTag) [ReadMsg exBroadcastFrame None] (exVpn 5 True)) = Waiting \<and>
   fst (tapReadHandler (homenetOps exTag)
          [ReadMsg exBroadcastFrame None, ReadMsg [] (Some ''EIO'')] (exVpn 5 True)) = Panicked"
  by code_simp

end
